theory Spec2Isabelle
  imports Complex_Main
begin

section \<open>Ramp controller of \<open>peridynamics/utilities.py\<close>\<close>

text \<open>
  The functions of \<open>utilities.py\<close> compute with Python floats and integers. The
  embedding uses exact arithmetic: a float is a \<open>real\<close>, a Python \<open>int\<close> (the
  candidate build time, the step counter, \<open>ease_off\<close>) is an \<open>int\<close>, and the true
  division \<open>build_time / 2\<close> is division of reals. Rounding is not modelled.
\<close>

datatype error =
    ValueError \<comment> \<open>raised by \<open>calc_build_time\<close> when the build time passes \<open>steps\<close>\<close>
  | UnboundLocalError \<comment> \<open>a local variable is read before any assignment\<close>
  | LinAlgError \<comment> \<open>\<open>np.linalg.solve\<close> on a singular matrix\<close>
  | TypeError \<comment> \<open>\<open>np.linalg.solve\<close> on an array of Python objects\<close>
  | IOError
  | KeyError
  | IndexError
  | ZeroDivisionError

type_synonym coefficients = "real \<times> real \<times> real"

type_synonym matrix3 = "(real \<times> real \<times> real) \<times> (real \<times> real \<times> real) \<times> (real \<times> real \<times> real)"

definition det3 :: "matrix3 \<Rightarrow> real" where
  "det3 M = (case M of ((m11, m12, m13), (m21, m22, m23), (m31, m32, m33)) \<Rightarrow>
     m11 * (m22 * m33 - m23 * m32) - m12 * (m21 * m33 - m23 * m31)
       + m13 * (m21 * m32 - m22 * m31))"

definition mat_vec3 :: "matrix3 \<Rightarrow> coefficients \<Rightarrow> coefficients" where
  "mat_vec3 M x = (case M of ((m11, m12, m13), (m21, m22, m23), (m31, m32, m33)) \<Rightarrow>
     (case x of (x1, x2, x3) \<Rightarrow>
       (m11 * x1 + m12 * x2 + m13 * x3,
        m21 * x1 + m22 * x2 + m23 * x3,
        m31 * x1 + m32 * x2 + m33 * x3)))"

text \<open>
  \<open>np.linalg.solve(A, b)\<close> for a 3x3 system, by its contract in exact arithmetic: the
  unique solution of \<open>A x = b\<close>, and \<open>LinAlgError('Singular matrix')\<close> (here \<open>None\<close>)
  when \<open>A\<close> is singular. The solution is computed by Cramer's rule.
\<close>

definition linalg_solve :: "matrix3 \<Rightarrow> coefficients \<Rightarrow> coefficients option" where
  "linalg_solve M r = (case M of ((m11, m12, m13), (m21, m22, m23), (m31, m32, m33)) \<Rightarrow>
     (case r of (r1, r2, r3) \<Rightarrow>
       (if det3 M = 0 then None
        else Some
          (det3 ((r1, m12, m13), (r2, m22, m23), (r3, m32, m33)) / det3 M,
           det3 ((m11, r1, m13), (m21, r2, m23), (m31, r3, m33)) / det3 M,
           det3 ((m11, m12, r1), (m21, m22, r2), (m31, m32, r3)) / det3 M))))"

text \<open>The derivative \<open>5 a t^4 + 4 b t^3 + 3 c t^2\<close> of the quintic, as both functions write it.\<close>

definition quintic_rate :: "coefficients \<Rightarrow> real \<Rightarrow> real" where
  "quintic_rate cs t = (case cs of (a, b, c) \<Rightarrow> 5 * a * t ^ 4 + 4 * b * t ^ 3 + 3 * c * t ^ 2)"

text \<open>
  \<open>_calc_midpoint_gradient(T, displacement)\<close>. The matrix is built from Python integers:
  while every entry is below \<open>2^64\<close> NumPy stores them as machine numbers and the solver
  works on floats; from an entry of \<open>2^64\<close> on the array holds Python objects and
  \<open>np.linalg.solve\<close> raises a \<open>TypeError\<close>. The only caller passes \<open>T \<ge> 0\<close>, where the
  largest entry that can reach \<open>2^64\<close> is \<open>T^5\<close> (from \<open>T = 7132\<close> on).
\<close>

definition calc_midpoint_gradient :: "int \<Rightarrow> real \<Rightarrow> error + (real \<times> coefficients)" where
  "calc_midpoint_gradient T displacement =
     (if 2 ^ 64 \<le> T ^ 5 then Inl TypeError
      else
        let A = ((1 * of_int T ^ 5, 1 * of_int T ^ 4, 1 * of_int T ^ 3),
                 (20 * of_int T ^ 3, 12 * of_int T ^ 2, 6 * of_int T),
                 (5 * of_int T ^ 4, 4 * of_int T ^ 3, 3 * of_int T ^ 2));
            b = (displacement, 0, 0)
        in case linalg_solve A b of
             None \<Rightarrow> Inl LinAlgError
           | Some x \<Rightarrow> Inr (quintic_rate x (of_int T / 2), x))"

text \<open>
  \<open>calc_displacement_scale\<close>: the three branches in the order of the source. The result is
  the pair \<open>(displacement_bc_rate, ease_off)\<close>.
\<close>

definition calc_displacement_scale ::
  "coefficients \<Rightarrow> real \<Rightarrow> int \<Rightarrow> real \<Rightarrow> int \<Rightarrow> real \<Rightarrow> int \<Rightarrow> real \<times> int" where
  "calc_displacement_scale coefficients max_displacement build_time max_displacement_rate
      step build_displacement ease_off =
     (if of_int step < (of_int build_time :: real) / 2 then
        (quintic_rate coefficients (of_int step), ease_off)
      else if ease_off \<noteq> 0 then
        (let t = of_int step - of_int ease_off + (of_int build_time :: real) / 2
         in if t > of_int build_time then (0, ease_off)
            else (quintic_rate coefficients t, ease_off))
      else
        (let linear_time = of_int step - (of_int build_time :: real) / 2;
             linear_displacement = linear_time * max_displacement_rate;
             displacement = linear_displacement + build_displacement / 2
         in if displacement + build_displacement / 2 < max_displacement
            then (1 * max_displacement_rate, ease_off)
            else (1 * max_displacement_rate, step)))"

text \<open>
  The loop of \<open>calc_build_time\<close>. The loop variables are \<open>build_time\<close>,
  \<open>midpoint_gradient\<close> (\<open>None\<close> is the initial \<open>np.inf\<close>) and \<open>coefficients\<close>
  (\<open>None\<close> while the name is unbound). The handler catches \<open>LinAlgError\<close> only and then
  leaves the last two as they are; any other exception of the solve leaves the function.
\<close>

definition exceeds :: "real option \<Rightarrow> real \<Rightarrow> bool" where
  "exceeds midpoint_gradient max_displacement_rate =
     (case midpoint_gradient of None \<Rightarrow> True | Some g \<Rightarrow> g > max_displacement_rate)"

function calc_build_time_loop ::
  "real \<Rightarrow> real \<Rightarrow> int \<Rightarrow> int \<Rightarrow> real option \<Rightarrow> coefficients option \<Rightarrow> error + (int \<times> coefficients)" where
  "calc_build_time_loop build_displacement max_displacement_rate steps
       build_time midpoint_gradient coefficients =
     (if exceeds midpoint_gradient max_displacement_rate then
        (case (case calc_midpoint_gradient build_time build_displacement of
                 Inr (g, cs) \<Rightarrow> Inr (Some g, Some cs)
               | Inl e \<Rightarrow> if e = LinAlgError then Inr (midpoint_gradient, coefficients)
                          else Inl e) of
           Inl e \<Rightarrow> Inl e
         | Inr (midpoint_gradient', coefficients') \<Rightarrow>
             (let build_time' = build_time + 1
              in if build_time' > steps then Inl ValueError
                 else calc_build_time_loop build_displacement max_displacement_rate steps
                        build_time' midpoint_gradient' coefficients'))
      else (case coefficients of
              None \<Rightarrow> Inl UnboundLocalError
            | Some cs \<Rightarrow> Inr (build_time, cs)))"
  by pat_completeness auto
termination
  by (relation "measure (\<lambda>(D, R, steps, build_time, g, cs). nat (steps - build_time))") auto

declare calc_build_time_loop.simps [simp del]

definition calc_build_time :: "real \<Rightarrow> real \<Rightarrow> int \<Rightarrow> error + (int \<times> coefficients)" where
  "calc_build_time build_displacement max_displacement_rate steps =
     calc_build_time_loop build_displacement max_displacement_rate steps 0 None None"

text \<open>
  A candidate \<open>T\<close> is feasible when its system has a solution whose midpoint gradient is at
  most the maximum displacement rate; a candidate whose solve raises is infeasible.
\<close>

definition feasible :: "real \<Rightarrow> real \<Rightarrow> int \<Rightarrow> bool" where
  "feasible build_displacement max_displacement_rate T =
     (case calc_midpoint_gradient T build_displacement of
        Inl e \<Rightarrow> False
      | Inr (g, cs) \<Rightarrow> g \<le> max_displacement_rate)"

text \<open>
  What a run of the loop started at \<open>build_time = bt\<close> establishes about its outcome
  \<open>res\<close>: a returned \<open>T\<close> is one more than the first feasible candidate from \<open>bt\<close> on,
  with the coefficients solved at \<open>T - 1\<close>; an exception is \<open>ValueError\<close> or the
  \<open>TypeError\<close> of a candidate with \<open>2^64 \<le> T^5\<close>, and then no candidate in
  \<open>bt .. steps - 1\<close> is feasible.
\<close>

definition loop_post ::
  "real \<Rightarrow> real \<Rightarrow> int \<Rightarrow> int \<Rightarrow> error + (int \<times> coefficients) \<Rightarrow> bool" where
  "loop_post D R S bt res =
     (case res of
        Inr (T, c) \<Rightarrow>
          bt < T \<and> T \<le> S
          \<and> (\<exists>g. calc_midpoint_gradient (T - 1) D = Inr (g, c) \<and> g \<le> R)
          \<and> (\<forall>k. bt \<le> k \<and> k < T - 1 \<longrightarrow> \<not> feasible D R k)
      | Inl e \<Rightarrow>
          (\<forall>k. bt \<le> k \<and> k < S \<longrightarrow> \<not> feasible D R k)
          \<and> (e = ValueError
               \<or> e = TypeError \<and> (\<exists>k. bt \<le> k \<and> (k \<le> S \<or> k = bt) \<and> 2 ^ 64 \<le> k ^ 5)))"

text \<open>
  The three-phase law in the words of the specification: the quintic's derivative at
  \<open>step\<close> while \<open>step < T/2\<close>; in the ease-off phase the derivative at
  \<open>step - ease_off + T/2\<close>, clamped to 0 once that argument exceeds \<open>T\<close>; the maximum
  rate otherwise.
\<close>

definition three_phase_rate :: "coefficients \<Rightarrow> int \<Rightarrow> real \<Rightarrow> int \<Rightarrow> int \<Rightarrow> real" where
  "three_phase_rate cs T Rmax step ease_off =
     (case cs of (a, b, c) \<Rightarrow>
        (if of_int step < (of_int T :: real) / 2 then
           5 * a * of_int step ^ 4 + 4 * b * of_int step ^ 3 + 3 * c * of_int step ^ 2
         else if ease_off \<noteq> 0 then
           (if of_int step - of_int ease_off + of_int T / 2 > (of_int T :: real) then 0
            else 5 * a * (of_int step - of_int ease_off + of_int T / 2) ^ 4
               + 4 * b * (of_int step - of_int ease_off + of_int T / 2) ^ 3
               + 3 * c * (of_int step - of_int ease_off + of_int T / 2) ^ 2)
         else Rmax))"

text \<open>
  Modelled from the spec: the driver that calls \<open>calc_displacement_scale\<close> once per step
  and passes the returned \<open>ease_off\<close> to the next call is not among the sources. The
  function lists the \<open>ease_off\<close> values returned along a sequence of steps.
\<close>

fun ease_off_trace ::
  "coefficients \<Rightarrow> real \<Rightarrow> int \<Rightarrow> real \<Rightarrow> real \<Rightarrow> int \<Rightarrow> int list \<Rightarrow> int list" where
  "ease_off_trace cs max_displacement build_time max_displacement_rate build_displacement
      ease_off [] = []"
| "ease_off_trace cs max_displacement build_time max_displacement_rate build_displacement
      ease_off (step # steps) =
     (let ease_off' = snd (calc_displacement_scale cs max_displacement build_time
                             max_displacement_rate step build_displacement ease_off)
      in ease_off' # ease_off_trace cs max_displacement build_time max_displacement_rate
                       build_displacement ease_off' steps)"

text \<open>The number of positions at which a sequence differs from its successor.\<close>

fun changes :: "int list \<Rightarrow> nat" where
  "changes (a # b # xs) = (if a \<noteq> b then 1 else 0) + changes (b # xs)"
| "changes xs = 0"

section \<open>Reading an array from the HDF5 store\<close>

text \<open>
  The store is a map from paths to files, a file a map from dataset names to arrays.
  \<open>h5py.File(read_path, 'r')\<close> raises \<open>IOError\<close> when the file cannot be opened. The
  exception that indexing a file with a missing name raises is a parameter \<open>missing\<close>:
  h5py raises \<open>KeyError\<close>, the handler in \<open>read_array\<close> expects \<open>IOError\<close>.
\<close>

type_synonym 'a h5file = "string \<rightharpoonup> 'a"

type_synonym 'a store = "string \<rightharpoonup> 'a h5file"

definition h5py_File :: "'a store \<Rightarrow> string \<Rightarrow> error + 'a h5file" where
  "h5py_File fs read_path = (case fs read_path of None \<Rightarrow> Inl IOError | Some hf \<Rightarrow> Inr hf)"

definition h5py_getitem :: "error \<Rightarrow> 'a h5file \<Rightarrow> string \<Rightarrow> error + 'a" where
  "h5py_getitem missing hf dataset =
     (case hf dataset of None \<Rightarrow> Inl missing | Some array \<Rightarrow> Inr array)"

text \<open>
  \<open>str.format\<close> with positional fields: it raises \<open>IndexError\<close> when the string has more
  \<open>{}\<close> fields than arguments are given.
\<close>

definition str_format :: "nat \<Rightarrow> nat \<Rightarrow> error + unit" where
  "str_format fields args = (if fields \<le> args then Inr () else Inl IndexError)"

text \<open>
  \<open>read_array\<close>: \<open>Inr (Some array)\<close> is a returned array, \<open>Inr None\<close> the returned
  \<open>None\<close>, \<open>Inl e\<close> an exception that leaves the function. The inner handler catches
  \<open>IOError\<close> and prints a message with three \<open>{}\<close> fields formatted with two
  arguments; were the message printed, the local \<open>array\<close> would be unbound (\<open>None\<close> in
  the inner \<open>let\<close>) and \<open>return array\<close> would raise \<open>UnboundLocalError\<close>. The outer
  handler catches \<open>IOError\<close> only; its message has two fields and two arguments.
\<close>

definition read_array :: "error \<Rightarrow> 'a store \<Rightarrow> string \<Rightarrow> string \<Rightarrow> error + 'a option" where
  "read_array missing fs read_path dataset =
     (let body =
        (case h5py_File fs read_path of
           Inl e \<Rightarrow> Inl e
         | Inr hf \<Rightarrow>
             (let array =
                (case h5py_getitem missing hf dataset of
                   Inr a \<Rightarrow> Inr (Some a)
                 | Inl e \<Rightarrow>
                     if e = IOError
                     then (case str_format 3 2 of Inl e' \<Rightarrow> Inl e' | Inr u \<Rightarrow> Inr None)
                     else Inl e)
              in case array of
                   Inl e \<Rightarrow> Inl e
                 | Inr None \<Rightarrow> Inl UnboundLocalError
                 | Inr (Some a) \<Rightarrow> Inr (Some a)))
      in case body of
           Inl e \<Rightarrow>
             if e = IOError
             then (case str_format 2 2 of Inl e' \<Rightarrow> Inl e' | Inr u \<Rightarrow> Inr None)
             else Inl e
         | Inr r \<Rightarrow> Inr r)"

section \<open>The example of \<open>examples/example1/example.py\<close>\<close>

definition bind_result :: "error + 'a \<Rightarrow> ('a \<Rightarrow> error + 'b) \<Rightarrow> error + 'b" where
  "bind_result r f = (case r of Inl e \<Rightarrow> Inl e | Inr v \<Rightarrow> f v)"

text \<open>Indexing a coordinate \<open>x[i]\<close> and the division of two floats, with their exceptions.\<close>

definition getitem :: "real list \<Rightarrow> nat \<Rightarrow> error + real" where
  "getitem x i = (if i < length x then Inr (x ! i) else Inl IndexError)"

definition divide_float :: "real \<Rightarrow> real \<Rightarrow> error + real" where
  "divide_float p q = (if q = 0 then Inl ZeroDivisionError else Inr (p / q))"

text \<open>
  \<open>is_crack(x, y)\<close>, the function under the decorator \<open>initial_crack_helper\<close> (the
  decorator belongs to \<open>peridynamics.model\<close>, which is not among the sources). The
  operands are read in the order in which Python evaluates them.
\<close>

definition is_crack :: "real list \<Rightarrow> real list \<Rightarrow> error + int" where
  "is_crack x y =
     (let crack_length = 0.3 :: real in
      bind_result (getitem x 0) (\<lambda>x0.
      bind_result (getitem y 0) (\<lambda>y0.
      let p1 = (if x0 > y0 then y else x);
          p2 = (if x0 > y0 then x else y) in
      bind_result (getitem p1 0) (\<lambda>p1_0.
      bind_result (getitem p2 0) (\<lambda>p2_0.
      if p1_0 < 0.5 + 0.000001 \<and> p2_0 > 0.5 + 0.000001 then
        bind_result (getitem p2 1) (\<lambda>p2_1.
        bind_result (getitem p1 1) (\<lambda>p1_1.
        bind_result (divide_float (p2_1 - p1_1) (p2_0 - p1_0)) (\<lambda>m.
        let c = p1_1 - m * p1_0;
            height = m * 0.5 + c in
        if height > 0.5 * (1 - crack_length) \<and> height < 0.5 * (1 + crack_length)
        then Inr 1 else Inr 0)))
      else Inr 0)))))"

text \<open>
  \<open>boundary_function(model, u, step)\<close>. The displacement array \<open>u\<close> has one row of three
  components per particle; \<open>model.lhs\<close> and \<open>model.rhs\<close> are index arrays. An assignment
  \<open>u[idx, cols] = v\<close> overwrites the chosen components in every row of \<open>idx\<close> and raises
  \<open>IndexError\<close> when an index is out of range.
\<close>

type_synonym row = "real \<times> real \<times> real"

record model =
  lhs :: "nat list"
  rhs :: "nat list"

definition assign_rows :: "nat list \<Rightarrow> (row \<Rightarrow> row) \<Rightarrow> row list \<Rightarrow> error + row list" where
  "assign_rows idx f u =
     (if list_all (\<lambda>i. i < length u) idx
      then Inr (map (\<lambda>i. if i \<in> set idx then f (u ! i) else u ! i) [0..<length u])
      else Inl IndexError)"

text \<open>
  The index arrays that \<open>main\<close> gives the model before it simulates:
  \<open>np.nonzero(model.coords[:, 0] < 1.5 * model.horizon)\<close> and
  \<open>np.nonzero(model.coords[:, 0] > 1.0 - 1.5 * model.horizon)\<close>, with the horizon 0.1 of every
  model that \<open>main\<close> builds.
\<close>

definition nonzero :: "bool list \<Rightarrow> nat list" where
  "nonzero flags = filter (\<lambda>i. flags ! i) [0..<length flags]"

definition main_model :: "row list \<Rightarrow> model" where
  "main_model coords =
     (let horizon = 0.1 :: real in
      \<lparr>lhs = nonzero (map (\<lambda>x. fst x < 1.5 * horizon) coords),
       rhs = nonzero (map (\<lambda>x. fst x > 1.0 - 1.5 * horizon) coords)\<rparr>)"

definition boundary_function :: "model \<Rightarrow> row list \<Rightarrow> int \<Rightarrow> error + row list" where
  "boundary_function model u step =
     (let load_rate = 0.000005 :: real in
      bind_result (assign_rows (lhs model) (\<lambda>(u0, u1, u2). (u0, 0, 0)) u) (\<lambda>u.
      bind_result (assign_rows (rhs model) (\<lambda>(u0, u1, u2). (u0, 0, 0)) u) (\<lambda>u.
      let extension = 0.5 * of_int step * load_rate in
      bind_result (assign_rows (lhs model) (\<lambda>(u0, u1, u2). (- extension, u1, u2)) u) (\<lambda>u.
      bind_result (assign_rows (rhs model) (\<lambda>(u0, u1, u2). (extension, u1, u2)) u) (\<lambda>u.
      Inr u)))))"

section \<open>The linear system and its solution\<close>

text \<open>The solver returns a solution, the only one, and fails exactly on a singular matrix.\<close>

lemma linalg_solve_singular: "det3 M = 0 \<Longrightarrow> linalg_solve M r = None"
  by (simp add: linalg_solve_def split: prod.splits)

lemma linalg_solve_sound:
  assumes "linalg_solve M r = Some x"
  shows "mat_vec3 M x = r"
proof -
  obtain m11 m12 m13 m21 m22 m23 m31 m32 m33
    where M: "M = ((m11, m12, m13), (m21, m22, m23), (m31, m32, m33))"
    by (metis prod_cases3)
  obtain r1 r2 r3 where r: "r = (r1, r2, r3)" by (metis prod_cases3)
  define d where "d = det3 M"
  define n1 where "n1 = det3 ((r1, m12, m13), (r2, m22, m23), (r3, m32, m33))"
  define n2 where "n2 = det3 ((m11, r1, m13), (m21, r2, m23), (m31, r3, m33))"
  define n3 where "n3 = det3 ((m11, m12, r1), (m21, m22, r2), (m31, m32, r3))"
  from assms have d: "d \<noteq> 0" and x: "x = (n1 / d, n2 / d, n3 / d)"
    by (auto simp: linalg_solve_def M r d_def n1_def n2_def n3_def split: if_splits)
  have e1: "m11 * n1 + m12 * n2 + m13 * n3 = r1 * d"
    by (simp add: d_def n1_def n2_def n3_def M det3_def algebra_simps)
  have e2: "m21 * n1 + m22 * n2 + m23 * n3 = r2 * d"
    by (simp add: d_def n1_def n2_def n3_def M det3_def algebra_simps)
  have e3: "m31 * n1 + m32 * n2 + m33 * n3 = r3 * d"
    by (simp add: d_def n1_def n2_def n3_def M det3_def algebra_simps)
  have "m11 * (n1 / d) + m12 * (n2 / d) + m13 * (n3 / d) = (m11 * n1 + m12 * n2 + m13 * n3) / d"
       "m21 * (n1 / d) + m22 * (n2 / d) + m23 * (n3 / d) = (m21 * n1 + m22 * n2 + m23 * n3) / d"
       "m31 * (n1 / d) + m32 * (n2 / d) + m33 * (n3 / d) = (m31 * n1 + m32 * n2 + m33 * n3) / d"
    by (simp_all add: add_divide_distrib)
  with e1 e2 e3 d show ?thesis
    by (simp add: mat_vec3_def M x r)
qed

lemma linalg_solve_unique:
  assumes "det3 M \<noteq> 0" "mat_vec3 M y = r"
  shows "linalg_solve M r = Some y"
proof -
  obtain m11 m12 m13 m21 m22 m23 m31 m32 m33
    where M: "M = ((m11, m12, m13), (m21, m22, m23), (m31, m32, m33))"
    by (metis prod_cases3)
  obtain y1 y2 y3 where y: "y = (y1, y2, y3)" by (metis prod_cases3)
  obtain r1 r2 r3 where r: "r = (r1, r2, r3)" by (metis prod_cases3)
  define d where "d = det3 M"
  have d: "d \<noteq> 0" using assms(1) by (simp add: d_def)
  from assms(2) have r1: "r1 = m11 * y1 + m12 * y2 + m13 * y3"
    and r2: "r2 = m21 * y1 + m22 * y2 + m23 * y3"
    and r3: "r3 = m31 * y1 + m32 * y2 + m33 * y3"
    by (simp_all add: mat_vec3_def M y r)
  have n1: "det3 ((r1, m12, m13), (r2, m22, m23), (r3, m32, m33)) = y1 * d"
    by (simp add: d_def M det3_def r1 r2 r3 algebra_simps)
  have n2: "det3 ((m11, r1, m13), (m21, r2, m23), (m31, r3, m33)) = y2 * d"
    by (simp add: d_def M det3_def r1 r2 r3 algebra_simps)
  have n3: "det3 ((m11, m12, r1), (m21, m22, r2), (m31, m32, r3)) = y3 * d"
    by (simp add: d_def M det3_def r1 r2 r3 algebra_simps)
  have "linalg_solve M r = Some (y1 * d / d, y2 * d / d, y3 * d / d)"
    using d unfolding linalg_solve_def M r prod.case n1 n2 n3
    by (simp add: d_def M)
  then show ?thesis using d by (simp add: y)
qed

text \<open>The matrix of \<open>_calc_midpoint_gradient\<close> has determinant \<open>2 T^9\<close>: singular at 0 only.\<close>

lemma det3_ramp:
  "det3 ((t ^ 5, t ^ 4, t ^ 3), (20 * t ^ 3, 12 * t ^ 2, 6 * t), (5 * t ^ 4, 4 * t ^ 3, 3 * t ^ 2))
     = 2 * t ^ 9"
  by (simp add: det3_def power_numeral_reduce algebra_simps)

lemma calc_midpoint_gradient_zero: "calc_midpoint_gradient 0 D = Inl LinAlgError"
  by (simp add: calc_midpoint_gradient_def linalg_solve_def det3_def)

lemma calc_midpoint_gradient_overflow:
  "2 ^ 64 \<le> T ^ 5 \<Longrightarrow> calc_midpoint_gradient T D = Inl TypeError"
  by (simp add: calc_midpoint_gradient_def)

lemma calc_midpoint_gradient_errors:
  "calc_midpoint_gradient T D = Inl e \<Longrightarrow>
   e = LinAlgError \<and> T ^ 5 < 2 ^ 64 \<or> e = TypeError \<and> 2 ^ 64 \<le> T ^ 5"
  by (auto simp: calc_midpoint_gradient_def Let_def split: if_splits option.splits)

lemma quintic_rate_midpoint:
  fixes t :: real
  assumes t: "t \<noteq> 0"
  shows "quintic_rate (6 * D / t ^ 5, - 15 * D / t ^ 4, 10 * D / t ^ 3) (t / 2) = 15 * D / (8 * t)"
proof -
  have p: "t ^ 5 = t * t * t * t * t" "t ^ 4 = t * t * t * t" "t ^ 3 = t * t * t" "t ^ 2 = t * t"
    by (simp_all add: power_numeral_reduce)
  show ?thesis using t
    by (simp add: quintic_rate_def power_divide p field_simps)
qed

lemma calc_midpoint_gradient_closed:
  assumes "T \<noteq> 0" and small: "T ^ 5 < 2 ^ 64"
  shows "calc_midpoint_gradient T D =
    Inr (15 * D / (8 * of_int T),
         (6 * D / of_int T ^ 5, - 15 * D / of_int T ^ 4, 10 * D / of_int T ^ 3))"
proof -
  define t :: real where "t = of_int T"
  have t: "t \<noteq> 0" using assms by (simp add: t_def)
  let ?A = "((t ^ 5, t ^ 4, t ^ 3), (20 * t ^ 3, 12 * t ^ 2, 6 * t), (5 * t ^ 4, 4 * t ^ 3, 3 * t ^ 2))"
  have d: "det3 ?A \<noteq> 0" using t by (simp add: det3_ramp)
  have mv: "mat_vec3 ?A (6 * D / t ^ 5, - 15 * D / t ^ 4, 10 * D / t ^ 3) = (D, 0, 0)"
    using t by (simp add: mat_vec3_def power_numeral_reduce field_simps)
  have s: "linalg_solve ?A (D, 0, 0) = Some (6 * D / t ^ 5, - 15 * D / t ^ 4, 10 * D / t ^ 3)"
    by (rule linalg_solve_unique[OF d mv])
  have "\<not> (2 :: int) ^ 64 \<le> T ^ 5" using small by simp
  then show ?thesis
    unfolding calc_midpoint_gradient_def Let_def t_def[symmetric] mult_1 s
    using quintic_rate_midpoint[OF t, of D] by simp
qed

lemma quintic_rate_closed:
  fixes t :: real
  assumes "t \<noteq> 0"
  shows "quintic_rate (6 * D / t ^ 5, - 15 * D / t ^ 4, 10 * D / t ^ 3) s
           = 30 * D * s ^ 2 * (t - s) ^ 2 / t ^ 5"
  using assms by (simp add: quintic_rate_def power_numeral_reduce field_simps)

section \<open>The search loop of \<open>calc_build_time\<close>\<close>

lemma loop_post_step:
  assumes "loop_post D R S (bt + 1) res" "\<not> feasible D R bt" "bt + 1 \<le> S"
  shows "loop_post D R S bt res"
proof -
  have ext: "\<forall>k. bt \<le> k \<and> P k \<longrightarrow> \<not> feasible D R k"
    if a: "\<forall>k. bt + 1 \<le> k \<and> P k \<longrightarrow> \<not> feasible D R k" for P
  proof (intro allI impI)
    fix k assume b: "bt \<le> k \<and> P k"
    show "\<not> feasible D R k"
    proof (cases "k = bt")
      case True
      then show ?thesis using assms(2) by simp
    next
      case False
      then show ?thesis using a b by auto
    qed
  qed
  show ?thesis
  proof (cases res)
    case (Inl e)
    from assms(1) have inf: "\<forall>k. bt + 1 \<le> k \<and> k < S \<longrightarrow> \<not> feasible D R k"
      and e: "e = ValueError
              \<or> e = TypeError \<and> (\<exists>k. bt + 1 \<le> k \<and> (k \<le> S \<or> k = bt + 1) \<and> 2 ^ 64 \<le> k ^ 5)"
      by (simp_all add: loop_post_def Inl)
    from e have "e = ValueError
              \<or> e = TypeError \<and> (\<exists>k. bt \<le> k \<and> (k \<le> S \<or> k = bt) \<and> 2 ^ 64 \<le> k ^ 5)"
    proof
      assume "e = ValueError"
      then show ?thesis by simp
    next
      assume "e = TypeError \<and> (\<exists>k. bt + 1 \<le> k \<and> (k \<le> S \<or> k = bt + 1) \<and> 2 ^ 64 \<le> k ^ 5)"
      then obtain k where "e = TypeError" "bt + 1 \<le> k" "k \<le> S \<or> k = bt + 1" "2 ^ 64 \<le> k ^ 5"
        by blast
      then have "bt \<le> k \<and> (k \<le> S \<or> k = bt) \<and> 2 ^ 64 \<le> k ^ 5"
        using assms(3) by auto
      with \<open>e = TypeError\<close> show ?thesis by blast
    qed
    with ext[OF inf] show ?thesis by (simp add: loop_post_def Inl)
  next
    case (Inr p)
    obtain T c where p: "p = (T, c)" by (cases p)
    show ?thesis using assms(1) ext[of "\<lambda>k. k < T - 1"] by (simp add: loop_post_def Inr p)
  qed
qed

lemma overflow_infeasible:
  assumes "2 ^ 64 \<le> bt ^ 5" "0 \<le> bt" "bt \<le> k"
  shows "\<not> feasible D R k"
proof -
  have "bt ^ 5 \<le> k ^ 5" using assms(2,3) by (rule power_mono[rotated])
  then have "2 ^ 64 \<le> k ^ 5" using assms(1) by simp
  then show ?thesis by (simp add: feasible_def calc_midpoint_gradient_overflow)
qed

lemma calc_build_time_loop_post:
  "exceeds mg R \<Longrightarrow> 0 \<le> bt \<Longrightarrow> loop_post D R S bt (calc_build_time_loop D R S bt mg cs)"
proof (induction D R S bt mg cs rule: calc_build_time_loop.induct)
  case (1 D R S bt mg cs)
  show ?case
  proof (cases "calc_midpoint_gradient bt D")
    case (Inl e)
    show ?thesis
    proof (cases "e = LinAlgError")
      case False
      then have e: "e = TypeError" "2 ^ 64 \<le> bt ^ 5"
        using calc_midpoint_gradient_errors[OF Inl] by auto
      have "calc_build_time_loop D R S bt mg cs = Inl TypeError"
        using "1.prems" Inl False e by (subst calc_build_time_loop.simps) simp
      moreover have "\<forall>k. bt \<le> k \<and> k < S \<longrightarrow> \<not> feasible D R k"
        using overflow_infeasible[OF e(2) "1.prems"(2)] by blast
      ultimately show ?thesis using e(2) by (auto simp: loop_post_def)
    next
      case True
      have nf: "\<not> feasible D R bt" using Inl by (simp add: feasible_def)
      show ?thesis
      proof (cases "bt + 1 > S")
        case over: True
        then have "calc_build_time_loop D R S bt mg cs = Inl ValueError"
          using "1.prems" Inl True by (subst calc_build_time_loop.simps) simp
        then show ?thesis using over by (auto simp: loop_post_def)
      next
        case within: False
        have eq: "calc_build_time_loop D R S bt mg cs
                    = calc_build_time_loop D R S (bt + 1) mg cs"
          using "1.prems" Inl True within by (subst calc_build_time_loop.simps) simp
        have "loop_post D R S (bt + 1) (calc_build_time_loop D R S (bt + 1) mg cs)"
          using "1.IH"[of "(mg, cs)" mg cs "bt + 1"] "1.prems" Inl True within by simp
        moreover have "bt + 1 \<le> S" using within by simp
        ultimately show ?thesis unfolding eq using nf by (simp add: loop_post_step)
      qed
    qed
  next
    case (Inr r)
    obtain g c where r: "r = (g, c)" by (cases r)
    show ?thesis
    proof (cases "bt + 1 > S")
      case over: True
      then have "calc_build_time_loop D R S bt mg cs = Inl ValueError"
        using "1.prems" Inr r by (subst calc_build_time_loop.simps) simp
      then show ?thesis using over by (auto simp: loop_post_def)
    next
      case within: False
      have eq: "calc_build_time_loop D R S bt mg cs
                  = calc_build_time_loop D R S (bt + 1) (Some g) (Some c)"
        using "1.prems" Inr r within by (subst calc_build_time_loop.simps) simp
      show ?thesis
      proof (cases "g > R")
        case True
        have "loop_post D R S (bt + 1) (calc_build_time_loop D R S (bt + 1) (Some g) (Some c))"
          using "1.IH"[of "(Some g, Some c)" "Some g" "Some c" "bt + 1"] "1.prems" Inr r within True
          by (simp add: exceeds_def)
        moreover have "\<not> feasible D R bt" using Inr r True by (simp add: feasible_def)
        moreover have "bt + 1 \<le> S" using within by simp
        ultimately show ?thesis unfolding eq by (simp add: loop_post_step)
      next
        case g: False
        have "calc_build_time_loop D R S (bt + 1) (Some g) (Some c) = Inr (bt + 1, c)"
          using g by (subst calc_build_time_loop.simps) (simp add: exceeds_def)
        then show ?thesis using within g Inr r unfolding eq
          by (auto simp: loop_post_def)
      qed
    qed
  qed
qed

lemma calc_build_time_post: "loop_post D R S 0 (calc_build_time D R S)"
  unfolding calc_build_time_def by (rule calc_build_time_loop_post) (simp_all add: exceeds_def)

text \<open>
  What the loop returns and when it raises, for every input: a returned build time is
  greater than 1 and within the budget, the coefficients are the ones solved at the
  candidate before it, and that candidate is the first feasible one.
\<close>

lemma calc_build_time_returns:
  assumes "calc_build_time D R S = Inr (T, cs)"
  shows "1 < T" "T \<le> S"
    "\<exists>g. calc_midpoint_gradient (T - 1) D = Inr (g, cs) \<and> g \<le> R"
    "\<forall>k. 0 \<le> k \<and> k < T - 1 \<longrightarrow> \<not> feasible D R k"
proof -
  have p: "loop_post D R S 0 (Inr (T, cs))"
    using calc_build_time_post[of D R S] assms by simp
  then show "T \<le> S"
    and g: "\<exists>g. calc_midpoint_gradient (T - 1) D = Inr (g, cs) \<and> g \<le> R"
    and "\<forall>k. 0 \<le> k \<and> k < T - 1 \<longrightarrow> \<not> feasible D R k"
    by (simp_all add: loop_post_def)
  from p have "0 < T" by (simp add: loop_post_def)
  moreover have "T \<noteq> 1" using g by (auto simp: calc_midpoint_gradient_zero)
  ultimately show "1 < T" by simp
qed

text \<open>
  The exceptions: \<open>ValueError\<close>, or the \<open>TypeError\<close> of a candidate from 7132 on, which the
  loop reaches only with \<open>steps \<ge> 7132\<close>; either way no candidate below \<open>steps\<close> is feasible.
\<close>

lemma calc_build_time_raises:
  assumes "calc_build_time D R S = Inl e"
  shows "\<forall>k. 0 \<le> k \<and> k < S \<longrightarrow> \<not> feasible D R k"
    and "e = ValueError \<or> e = TypeError \<and> 7132 \<le> S"
proof -
  have p: "loop_post D R S 0 (Inl e)"
    using calc_build_time_post[of D R S] assms by simp
  then show "\<forall>k. 0 \<le> k \<and> k < S \<longrightarrow> \<not> feasible D R k"
    by (simp add: loop_post_def)
  from p have "e = ValueError
               \<or> e = TypeError \<and> (\<exists>k. 0 \<le> k \<and> (k \<le> S \<or> k = 0) \<and> 2 ^ 64 \<le> k ^ 5)"
    by (simp add: loop_post_def)
  then show "e = ValueError \<or> e = TypeError \<and> 7132 \<le> S"
  proof
    assume "e = ValueError"
    then show ?thesis by simp
  next
    assume "e = TypeError \<and> (\<exists>k. 0 \<le> k \<and> (k \<le> S \<or> k = 0) \<and> 2 ^ 64 \<le> k ^ 5)"
    then obtain k :: int where e: "e = TypeError" and k: "0 \<le> k" "k \<le> S \<or> k = 0" "2 ^ 64 \<le> k ^ 5"
      by blast
    have "7132 \<le> k"
    proof (rule ccontr)
      assume "\<not> 7132 \<le> k"
      then have "k \<le> 7131" by simp
      then have "k ^ 5 \<le> 7131 ^ 5" using k(1) by (rule power_mono)
      then show False using k(3) by simp
    qed
    then show ?thesis using e k(2) by auto
  qed
qed

text \<open>The call returns exactly when some candidate below \<open>steps\<close> is feasible.\<close>

lemma calc_build_time_returns_iff:
  "(\<exists>p. calc_build_time D R S = Inr p) \<longleftrightarrow> (\<exists>k. 0 \<le> k \<and> k < S \<and> feasible D R k)"
proof
  assume "\<exists>p. calc_build_time D R S = Inr p"
  then obtain T cs where r: "calc_build_time D R S = Inr (T, cs)" by auto
  from calc_build_time_returns[OF r]
  have "0 \<le> T - 1 \<and> T - 1 < S \<and> feasible D R (T - 1)"
    by (auto simp: feasible_def)
  then show "\<exists>k. 0 \<le> k \<and> k < S \<and> feasible D R k" by blast
next
  assume a: "\<exists>k. 0 \<le> k \<and> k < S \<and> feasible D R k"
  show "\<exists>p. calc_build_time D R S = Inr p"
  proof (cases "calc_build_time D R S")
    case (Inl e)
    from calc_build_time_raises(1)[OF Inl] a show ?thesis by blast
  next
    case (Inr p)
    then show ?thesis by blast
  qed
qed

lemma feasible_iff:
  "feasible D R T \<longleftrightarrow> T \<noteq> 0 \<and> T ^ 5 < 2 ^ 64 \<and> 15 * D / (8 * of_int T) \<le> R"
proof (cases "T = 0")
  case True
  then show ?thesis by (simp add: feasible_def calc_midpoint_gradient_zero)
next
  case False
  show ?thesis
  proof (cases "T ^ 5 < 2 ^ 64")
    case True
    then show ?thesis using False by (simp add: feasible_def calc_midpoint_gradient_closed)
  next
    case False
    then show ?thesis by (simp add: feasible_def calc_midpoint_gradient_overflow)
  qed
qed

lemma calc_midpoint_gradient_1_8: "calc_midpoint_gradient 1 8 = Inr (15, (48, -120, 80))"
  using calc_midpoint_gradient_closed[of 1 8] by simp

lemma calc_midpoint_gradient_2_8:
  "calc_midpoint_gradient 2 8 = Inr (15 / 2, (3 / 2, - (15 / 2), 10))"
  using calc_midpoint_gradient_closed[of 2 8] by simp

text \<open>
  Claim C1 (refuted on the code). The claim takes the returned \<open>T\<close> for the minimal
  feasible candidate and the returned coefficients for the ones solved at \<open>T\<close>. The
  loop adds 1 to \<open>build_time\<close> after a successful solve and before its condition is
  tested again: for a build displacement of 8, a maximum rate of 16 and 10 steps the
  candidate 1 is feasible (midpoint gradient 15), yet the call returns 2, with the
  coefficients \<open>(48, -120, 80)\<close> solved at 1 and not the \<open>(3/2, -15/2, 10)\<close> of 2.
\<close>

theorem calc_build_time_off_by_one:
  "calc_build_time 8 16 10 = Inr (2, (48, -120, 80))
   \<and> calc_midpoint_gradient 1 8 = Inr (15, (48, -120, 80))
   \<and> feasible 8 16 1
   \<and> calc_midpoint_gradient 2 8 = Inr (15 / 2, (3 / 2, - (15 / 2), 10))"
  by (simp add: calc_build_time_def calc_build_time_loop.simps exceeds_def feasible_def
        calc_midpoint_gradient_zero calc_midpoint_gradient_1_8 calc_midpoint_gradient_2_8)

text \<open>
  Claim C2 (refuted on the code). The claim has the call raise only when the required
  build time exceeds \<open>steps\<close>. With a build displacement of 8 and a maximum rate of 16 the
  minimal feasible build time is 1; with \<open>steps = 1\<close> it is within the budget and the
  call raises \<open>ValueError\<close> all the same, because the budget is tested on the value
  already incremented. With \<open>steps = 2\<close> the call returns.
\<close>

theorem calc_build_time_raises_within_budget:
  "calc_build_time 8 16 1 = Inl ValueError
   \<and> feasible 8 16 1
   \<and> calc_build_time 8 16 2 = Inr (2, (48, -120, 80))"
  by (simp add: calc_build_time_def calc_build_time_loop.simps exceeds_def feasible_def
        calc_midpoint_gradient_zero calc_midpoint_gradient_1_8)

text \<open>
  Claim C3 (refuted on the code). The claim bounds every returned rate by the maximum
  rate. For the pair \<open>(2, (48, -120, 80))\<close> that \<open>calc_build_time 8 16 10\<close> returns and a
  final displacement of 24, step 2 is in the constant phase and records \<open>ease_off = 2\<close>;
  at step 3 the ease-off phase evaluates the derivative at \<open>t = 2 = build_time\<close>, past
  the end of the ramp the coefficients were solved for, and returns 960.
\<close>

theorem rate_exceeds_maximum:
  "calc_build_time 8 16 10 = Inr (2, (48, -120, 80))
   \<and> calc_displacement_scale (48, -120, 80) 24 2 16 2 8 0 = (16, 2)
   \<and> calc_displacement_scale (48, -120, 80) 24 2 16 3 8 2 = (960, 2)
   \<and> \<not> (960 :: real) \<le> 16"
  by (simp add: calc_build_time_def calc_build_time_loop.simps exceeds_def
        calc_midpoint_gradient_zero calc_midpoint_gradient_1_8
        calc_displacement_scale_def quintic_rate_def Let_def)

subsection \<open>The shape of the solved quintic\<close>

lemma quintic_bounds:
  fixes t s D :: real
  assumes D: "0 < D" and t: "0 < t" and s: "0 \<le> s" "s \<le> t"
  shows "0 \<le> quintic_rate (6 * D / t ^ 5, - 15 * D / t ^ 4, 10 * D / t ^ 3) s"
    and "quintic_rate (6 * D / t ^ 5, - 15 * D / t ^ 4, 10 * D / t ^ 3) s \<le> 15 * D / (8 * t)"
proof -
  have t0: "t \<noteq> 0" using t by simp
  have q: "quintic_rate (6 * D / t ^ 5, - 15 * D / t ^ 4, 10 * D / t ^ 3) s
            = 30 * D * s ^ 2 * (t - s) ^ 2 / t ^ 5"
    by (rule quintic_rate_closed[OF t0])
  show "0 \<le> quintic_rate (6 * D / t ^ 5, - 15 * D / t ^ 4, 10 * D / t ^ 3) s"
    unfolding q using D t by simp
  define p where "p = s * (t - s)"
  have p0: "0 \<le> p" using s by (simp add: p_def)
  have "0 \<le> (t - 2 * s) ^ 2" by simp
  then have p4: "p \<le> t ^ 2 / 4" by (simp add: p_def power2_eq_square algebra_simps)
  have "p ^ 2 \<le> (t ^ 2 / 4) ^ 2" using p0 p4 by (rule power_mono[rotated])
  then have pp: "s ^ 2 * (t - s) ^ 2 \<le> t ^ 4 / 16"
    by (simp add: p_def power_mult_distrib power_divide)
  have "30 * D * (s ^ 2 * (t - s) ^ 2) \<le> 30 * D * (t ^ 4 / 16)"
    using pp D by (intro mult_left_mono) simp_all
  then have "30 * D * s ^ 2 * (t - s) ^ 2 / t ^ 5 \<le> 30 * D * (t ^ 4 / 16) / t ^ 5"
    using t by (intro divide_right_mono) (simp_all add: mult.assoc)
  also have "30 * D * (t ^ 4 / 16) / t ^ 5 = 15 * D / (8 * t)"
    using t0 by (simp add: power_numeral_reduce field_simps)
  finally show "quintic_rate (6 * D / t ^ 5, - 15 * D / t ^ 4, 10 * D / t ^ 3) s
                  \<le> 15 * D / (8 * t)"
    unfolding q .
qed

lemma quintic_symmetric:
  fixes t :: real
  assumes "t \<noteq> 0"
  shows "quintic_rate (6 * D / t ^ 5, - 15 * D / t ^ 4, 10 * D / t ^ 3) (t / 2 + u)
       = quintic_rate (6 * D / t ^ 5, - 15 * D / t ^ 4, 10 * D / t ^ 3) (t / 2 - u)"
proof -
  have "(t / 2 + u) ^ 2 * (t - (t / 2 + u)) ^ 2 = (t / 2 - u) ^ 2 * (t - (t / 2 - u)) ^ 2"
    by (simp add: power2_eq_square algebra_simps)
  then show ?thesis
    unfolding quintic_rate_closed[OF assms] by (simp add: mult.assoc)
qed

lemma quintic_ends:
  fixes t :: real
  assumes "t \<noteq> 0"
  shows "quintic_rate (6 * D / t ^ 5, - 15 * D / t ^ 4, 10 * D / t ^ 3) 0 = 0"
    and "quintic_rate (6 * D / t ^ 5, - 15 * D / t ^ 4, 10 * D / t ^ 3) t = 0"
  unfolding quintic_rate_closed[OF assms] by simp_all

section \<open>The rate query \<open>calc_displacement_scale\<close>\<close>

text \<open>
  Claim C4. \<open>calc_displacement_scale\<close> returns the rate of the three-phase law: the
  quintic's derivative at \<open>step\<close> while \<open>step < build_time / 2\<close>; otherwise, with
  \<open>ease_off \<noteq> 0\<close>, the derivative at \<open>t = step - ease_off + build_time / 2\<close>, and
  exactly 0 once \<open>t > build_time\<close>; otherwise exactly \<open>max_displacement_rate\<close>, whatever
  the displacement test decides, so also on the step that records \<open>ease_off\<close>.
\<close>

theorem calc_displacement_scale_three_phase:
  "fst (calc_displacement_scale cs max_displacement T Rmax step build_displacement ease_off)
     = three_phase_rate cs T Rmax step ease_off"
  by (cases cs) (simp add: calc_displacement_scale_def three_phase_rate_def quintic_rate_def Let_def)

text \<open>
  Claim C5. In the constant-rate phase (\<open>build_time / 2 \<le> step\<close>, \<open>ease_off = 0\<close>) the
  returned \<open>ease_off\<close> is \<open>step\<close> when the build-phase displacement plus the linear
  displacement \<open>max_displacement_rate * (step - build_time / 2)\<close> reaches
  \<open>max_displacement\<close>, and stays 0 otherwise; the rate is \<open>max_displacement_rate\<close>.
\<close>

theorem constant_phase_records_ease_off:
  assumes "(of_int build_time :: real) / 2 \<le> of_int step"
  shows "calc_displacement_scale cs max_displacement build_time Rmax step build_displacement 0
           = (Rmax,
              if max_displacement \<le> build_displacement + Rmax * (of_int step - of_int build_time / 2)
              then step else 0)"
  using assms
  by (simp add: calc_displacement_scale_def Let_def not_less algebra_simps)

theorem constant_phase_records_ease_off_witness:
  "(of_int (2::int) :: real) / 2 \<le> of_int (2::int)
   \<and> calc_displacement_scale (48, -120, 80) 24 2 16 2 8 0 = (16, 2)
   \<and> calc_displacement_scale (48, -120, 80) 24 2 16 1 8 0 = (16, 0)"
  using constant_phase_records_ease_off[of 2 2 "(48, -120, 80)" 24 16 8]
        constant_phase_records_ease_off[of 2 1 "(48, -120, 80)" 24 16 8]
  by simp

subsection \<open>The \<open>ease_off\<close> flag along a run\<close>

lemma ease_off_kept:
  "ease_off \<noteq> 0 \<Longrightarrow> snd (calc_displacement_scale cs md bt R step bd ease_off) = ease_off"
  by (simp add: calc_displacement_scale_def Let_def)

lemma ease_off_from_zero:
  "snd (calc_displacement_scale cs md bt R step bd 0) = 0
   \<or> snd (calc_displacement_scale cs md bt R step bd 0) = step"
  by (simp add: calc_displacement_scale_def Let_def)

lemma length_ease_off_trace: "length (ease_off_trace cs md bt R bd e steps) = length steps"
  by (induction steps arbitrary: e) (simp_all add: Let_def)

lemma ease_off_trace_nonzero:
  "e \<noteq> 0 \<Longrightarrow> ease_off_trace cs md bt R bd e steps = replicate (length steps) e"
  by (induction steps) (simp_all add: Let_def ease_off_kept)

lemma changes_replicate: "changes (e # replicate n e) = 0"
  by (induction n) simp_all

lemma changes_trace: "changes (e # ease_off_trace cs md bt R bd e steps) \<le> 1"
proof (induction steps arbitrary: e)
  case Nil
  then show ?case by simp
next
  case (Cons s steps)
  define e' where "e' = snd (calc_displacement_scale cs md bt R s bd e)"
  have unfold: "ease_off_trace cs md bt R bd e (s # steps)
                  = e' # ease_off_trace cs md bt R bd e' steps"
    by (simp add: e'_def Let_def)
  show ?case
  proof (cases "e' = e")
    case True
    then show ?thesis using Cons.IH[of e] unfolding unfold by simp
  next
    case False
    then have "e = 0" using ease_off_kept[of e cs md bt R s bd] by (auto simp: e'_def)
    with False have "e' \<noteq> 0" by simp
    then have "ease_off_trace cs md bt R bd e' steps = replicate (length steps) e'"
      by (rule ease_off_trace_nonzero)
    then show ?thesis unfolding unfold using False by (simp add: changes_replicate)
  qed
qed

text \<open>Each entry of the trace is the flag returned from the entry before it.\<close>

lemma trace_nth:
  "i < length steps \<Longrightarrow>
   ease_off_trace cs md bt R bd e steps ! i
     = snd (calc_displacement_scale cs md bt R (steps ! i) bd
              ((e # ease_off_trace cs md bt R bd e steps) ! i))"
proof (induction steps arbitrary: e i)
  case Nil
  then show ?case by simp
next
  case (Cons s steps)
  show ?case
  proof (cases i)
    case 0
    then show ?thesis by (simp add: Let_def)
  next
    case (Suc j)
    then have "j < length steps" using Cons.prems by simp
    from Cons.IH[OF this] show ?thesis by (simp add: Suc Let_def)
  qed
qed

text \<open>
  Claim C6. A call with \<open>ease_off \<noteq> 0\<close> returns \<open>ease_off\<close> unchanged; a call with
  \<open>ease_off = 0\<close> returns 0 or the current step. Hence, along any sequence of calls that
  pass the returned flag on (for any steps, increasing or not, and any first value
  \<open>e0\<close>), the flag changes at most once, a nonzero flag is kept for good, and a flag of
  0 is followed by 0 or by the step of that call.
\<close>

theorem ease_off_transitions_once:
  "(ease_off \<noteq> 0 \<longrightarrow> snd (calc_displacement_scale cs md bt R step bd ease_off) = ease_off)
   \<and> (snd (calc_displacement_scale cs md bt R step bd 0) = 0
        \<or> snd (calc_displacement_scale cs md bt R step bd 0) = step)
   \<and> changes (e0 # ease_off_trace cs md bt R bd e0 steps) \<le> 1
   \<and> (\<forall>i < length steps.
         (e0 # ease_off_trace cs md bt R bd e0 steps) ! i \<noteq> 0 \<longrightarrow>
           ease_off_trace cs md bt R bd e0 steps ! i
             = (e0 # ease_off_trace cs md bt R bd e0 steps) ! i)
   \<and> (\<forall>i < length steps.
         (e0 # ease_off_trace cs md bt R bd e0 steps) ! i = 0 \<longrightarrow>
           ease_off_trace cs md bt R bd e0 steps ! i = 0
           \<or> ease_off_trace cs md bt R bd e0 steps ! i = steps ! i)"
proof (intro conjI allI impI)
  show "snd (calc_displacement_scale cs md bt R step bd ease_off) = ease_off" if "ease_off \<noteq> 0"
    using that by (rule ease_off_kept)
  show "snd (calc_displacement_scale cs md bt R step bd 0) = 0
        \<or> snd (calc_displacement_scale cs md bt R step bd 0) = step"
    by (rule ease_off_from_zero)
  show "changes (e0 # ease_off_trace cs md bt R bd e0 steps) \<le> 1"
    by (rule changes_trace)
next
  fix i
  assume i: "i < length steps"
    and nz: "(e0 # ease_off_trace cs md bt R bd e0 steps) ! i \<noteq> 0"
  show "ease_off_trace cs md bt R bd e0 steps ! i
          = (e0 # ease_off_trace cs md bt R bd e0 steps) ! i"
    unfolding trace_nth[OF i, of cs md bt R bd e0] using nz by (rule ease_off_kept)
next
  fix i
  assume i: "i < length steps"
    and z: "(e0 # ease_off_trace cs md bt R bd e0 steps) ! i = 0"
  show "ease_off_trace cs md bt R bd e0 steps ! i = 0
          \<or> ease_off_trace cs md bt R bd e0 steps ! i = steps ! i"
    using trace_nth[OF i, of cs md bt R bd e0] ease_off_from_zero[of cs md bt R "steps ! i" bd]
    unfolding z by auto
qed

theorem ease_off_transitions_once_witness:
  "(2::int) \<noteq> 0
   \<and> snd (calc_displacement_scale (48, -120, 80) 24 2 16 3 8 2) = 2
   \<and> ease_off_trace (48, -120, 80) 24 2 16 8 0 [0, 1, 2, 3, 4] = [0, 0, 2, 2, 2]
   \<and> changes (0 # ease_off_trace (48, -120, 80) 24 2 16 8 0 [0, 1, 2, 3, 4]) \<le> 1
   \<and> (2::nat) < length [0, 1, 2, 3, 4 :: int]
   \<and> (0 # ease_off_trace (48, -120, 80) 24 2 16 8 0 [0, 1, 2, 3, 4]) ! 2 = 0
   \<and> ease_off_trace (48, -120, 80) 24 2 16 8 0 [0, 1, 2, 3, 4] ! 2 = [0, 1, 2, 3, 4] ! 2
   \<and> (3::nat) < length [0, 1, 2, 3, 4 :: int]
   \<and> (0 # ease_off_trace (48, -120, 80) 24 2 16 8 0 [0, 1, 2, 3, 4]) ! 3 \<noteq> 0
   \<and> ease_off_trace (48, -120, 80) 24 2 16 8 0 [0, 1, 2, 3, 4] ! 3
       = (0 # ease_off_trace (48, -120, 80) 24 2 16 8 0 [0, 1, 2, 3, 4]) ! 3"
  using ease_off_transitions_once[of 2 "(48, -120, 80)" 24 2 16 3 8 0 "[0, 1, 2, 3, 4]"]
  by (simp add: calc_displacement_scale_def Let_def)

section \<open>Continuity of the rate at the phase boundaries\<close>

lemma quintic_near_midpoint:
  fixes t u D R c2 :: real
  assumes D: "0 < D" and t: "0 < t" and u: "0 \<le> u" "u \<le> t"
    and c: "(t - 2 * u) ^ 2 \<le> c2"
    and g: "R - R / t \<le> 15 * D / (8 * t)" "15 * D / (8 * t) \<le> R"
  shows "R - R / t - 2 * c2 * R / t ^ 2
           \<le> quintic_rate (6 * D / t ^ 5, - 15 * D / t ^ 4, 10 * D / t ^ 3) u"
proof -
  define g where "g = 15 * D / (8 * t)"
  define x where "x = (t - 2 * u) ^ 2 / t ^ 2"
  have t0: "t \<noteq> 0" using t by simp
  have g0: "0 \<le> g" using D t by (simp add: g_def)
  have R0: "0 \<le> R" using g0 g(2) by (simp add: g_def)
  have x0: "0 \<le> x" by (simp add: x_def)
  have xc: "x \<le> c2 / t ^ 2" unfolding x_def using c t by (simp add: divide_right_mono)
  have q: "quintic_rate (6 * D / t ^ 5, - 15 * D / t ^ 4, 10 * D / t ^ 3) u = g * (1 - x) ^ 2"
  proof -
    have "1 - x = 4 * u * (t - u) / t ^ 2"
      using t0 by (simp add: x_def power2_eq_square field_simps)
    then have "g * (1 - x) ^ 2 = g * (4 * u * (t - u) / t ^ 2) ^ 2" by simp
    also have "\<dots> = 30 * D * u ^ 2 * (t - u) ^ 2 / t ^ 5"
      using t0 by (simp add: g_def power_numeral_reduce field_simps)
    finally show ?thesis using quintic_rate_closed[OF t0, of D u] by simp
  qed
  have sq: "1 - 2 * x \<le> (1 - x) ^ 2"
  proof -
    have "(1 - x) ^ 2 - (1 - 2 * x) = x ^ 2" by (simp add: power2_eq_square algebra_simps)
    moreover have "0 \<le> x ^ 2" by simp
    ultimately show ?thesis by linarith
  qed
  have xR: "x * R \<le> c2 / t ^ 2 * R" using xc R0 by (rule mult_right_mono)
  have Rt: "0 \<le> R / t" using R0 t by simp
  have bound: "R - R / t - 2 * c2 * R / t ^ 2 \<le> R - R / t - 2 * (x * R)"
    using xR by simp
  show ?thesis
  proof (cases "0 \<le> 1 - 2 * x")
    case True
    have "(R - R / t) * (1 - 2 * x) \<le> g * (1 - 2 * x)"
      using g(1) True unfolding g_def[symmetric] by (rule mult_right_mono)
    also have "\<dots> \<le> g * (1 - x) ^ 2" using sq g0 by (rule mult_left_mono)
    finally have "(R - R / t) * (1 - 2 * x) \<le> g * (1 - x) ^ 2" .
    moreover have "(R - R / t) * (1 - 2 * x) = R - R / t - 2 * (x * R) + 2 * (x * (R / t))"
      by (simp add: algebra_simps)
    moreover have "0 \<le> x * (R / t)" using x0 Rt by (rule mult_nonneg_nonneg)
    ultimately have "R - R / t - 2 * (x * R) \<le> g * (1 - x) ^ 2" by linarith
    with bound show ?thesis unfolding q by linarith
  next
    case False
    then have "R * (1 - 2 * x) \<le> 0" using R0 by (simp add: mult_nonneg_nonpos)
    then have "R - 2 * (x * R) \<le> 0" by (simp add: algebra_simps)
    with Rt bound have "R - R / t - 2 * c2 * R / t ^ 2 \<le> 0" by linarith
    moreover have "0 \<le> g * (1 - x) ^ 2" using g0 by simp
    ultimately show ?thesis unfolding q by linarith
  qed
qed

lemma quintic_near_end:
  fixes t s D R :: real
  assumes D: "0 < D" and t: "1 \<le> t" and s: "t - 1 \<le> s" "s \<le> t"
    and g: "15 * D / (8 * t) \<le> R"
  shows "quintic_rate (6 * D / t ^ 5, - 15 * D / t ^ 4, 10 * D / t ^ 3) s \<le> 16 * R / t ^ 2"
proof -
  have t0: "t \<noteq> 0" "0 < t" using t by simp_all
  have s0: "0 \<le> s" using s t by simp
  have "s ^ 2 \<le> t ^ 2" using s0 s(2) by (rule power_mono[rotated])
  moreover have "(t - s) ^ 2 \<le> 1 ^ 2" using s by (intro power_mono) simp_all
  ultimately have "s ^ 2 * (t - s) ^ 2 \<le> t ^ 2 * 1 ^ 2"
    by (intro mult_mono) simp_all
  then have "30 * D * (s ^ 2 * (t - s) ^ 2) \<le> 30 * D * t ^ 2"
    using D by simp
  then have "30 * D * s ^ 2 * (t - s) ^ 2 / t ^ 5 \<le> 30 * D * t ^ 2 / t ^ 5"
    using t0 by (intro divide_right_mono) (simp_all add: mult.assoc)
  also have "30 * D * t ^ 2 / t ^ 5 = 16 * (15 * D / (8 * t)) / t ^ 2"
    using t0 by (simp add: power_numeral_reduce field_simps)
  also have "\<dots> \<le> 16 * R / t ^ 2"
    using g t0 by (intro divide_right_mono mult_left_mono) simp_all
  finally show ?thesis using quintic_rate_closed[OF t0(1), of D s] by simp
qed


lemma calc_build_time_solved:
  assumes D: "0 < D" and ret: "calc_build_time D Rmax S = Inr (bt, cs)"
  shows "2 \<le> bt"
    and "cs = (6 * D / of_int (bt - 1) ^ 5, - 15 * D / of_int (bt - 1) ^ 4,
               10 * D / of_int (bt - 1) ^ 3)"
    and "Rmax - Rmax / of_int (bt - 1) \<le> 15 * D / (8 * of_int (bt - 1))"
    and "15 * D / (8 * of_int (bt - 1)) \<le> Rmax"
proof -
  define T0 where "T0 = bt - 1"
  define t :: real where "t = of_int T0"
  from calc_build_time_returns[OF ret]
  obtain g where T0: "1 \<le> T0" and g: "calc_midpoint_gradient T0 D = Inr (g, cs)" "g \<le> Rmax"
    and minimal: "\<forall>k. 0 \<le> k \<and> k < T0 \<longrightarrow> \<not> feasible D Rmax k"
    unfolding T0_def by auto
  show "2 \<le> bt" using T0 by (simp add: T0_def)
  have small: "T0 ^ 5 < 2 ^ 64"
  proof (rule ccontr)
    assume "\<not> T0 ^ 5 < 2 ^ 64"
    then have "calc_midpoint_gradient T0 D = Inl TypeError"
      by (simp add: calc_midpoint_gradient_overflow)
    with g(1) show False by simp
  qed
  have t: "0 < t" "t \<noteq> 0" using T0 by (simp_all add: t_def)
  have closed: "g = 15 * D / (8 * t)" "cs = (6 * D / t ^ 5, - 15 * D / t ^ 4, 10 * D / t ^ 3)"
    using g(1) calc_midpoint_gradient_closed[of T0 D] T0 small by (simp_all add: t_def)
  show "cs = (6 * D / of_int (bt - 1) ^ 5, - 15 * D / of_int (bt - 1) ^ 4,
               10 * D / of_int (bt - 1) ^ 3)"
    using closed(2) by (simp add: t_def T0_def)
  show "15 * D / (8 * of_int (bt - 1)) \<le> Rmax"
    using g(2) closed(1) by (simp add: t_def T0_def)
  have "Rmax - Rmax / t \<le> 15 * D / (8 * t)"
  proof (cases "T0 = 1")
    case True
    then have "t = 1" by (simp add: t_def)
    then show ?thesis using D by simp
  next
    case False
    then have k: "0 \<le> T0 - 1 \<and> T0 - 1 < T0" "T0 - 1 \<noteq> 0" using T0 by auto
    have "(T0 - 1) ^ 5 \<le> T0 ^ 5" using k by (intro power_mono) simp_all
    then have small': "(T0 - 1) ^ 5 < 2 ^ 64" using small by simp
    from minimal k have "\<not> feasible D Rmax (T0 - 1)" by blast
    then have "Rmax < 15 * D / (8 * (t - 1))"
      using k(2) small' by (simp add: feasible_iff t_def not_le)
    moreover have t1: "0 < t - 1" using False T0 by (simp add: t_def)
    ultimately have "Rmax * (8 * (t - 1)) < 15 * D"
      by (simp add: pos_less_divide_eq)
    moreover have "(Rmax - Rmax / t) * (8 * t) = Rmax * (8 * (t - 1))"
      using t(2) by (simp add: field_simps)
    ultimately have "(Rmax - Rmax / t) * (8 * t) < 15 * D"
      by simp
    then have "Rmax - Rmax / t < 15 * D / (8 * t)"
      using t by (simp add: pos_less_divide_eq)
    then show ?thesis by simp
  qed
  then show "Rmax - Rmax / of_int (bt - 1) \<le> 15 * D / (8 * of_int (bt - 1))"
    by (simp add: t_def T0_def)
qed


text \<open>
  Claim C7, as stated, fails. For a build displacement of 8, a maximum rate of 100, 10
  steps and a final displacement of 108 the returned pair is \<open>(2, (48, -120, 80))\<close> and
  the rates of steps 0 to 4 are 0, 100, 100, 960, 0: the last acceleration step and the
  constant phase differ by the whole maximum rate, the first ease-off step returns 960
  and not 100, and the derivative at the argument \<open>build_time\<close> is 960 and not close
  to the 0 that follows it.
\<close>

theorem ramp_discontinuous_counterexample:
  "calc_build_time 8 100 10 = Inr (2, (48, -120, 80))
   \<and> calc_displacement_scale (48, -120, 80) 108 2 100 0 8 0 = (0, 0)
   \<and> calc_displacement_scale (48, -120, 80) 108 2 100 1 8 0 = (100, 0)
   \<and> calc_displacement_scale (48, -120, 80) 108 2 100 2 8 0 = (100, 2)
   \<and> calc_displacement_scale (48, -120, 80) 108 2 100 3 8 2 = (960, 2)
   \<and> calc_displacement_scale (48, -120, 80) 108 2 100 4 8 2 = (0, 2)
   \<and> quintic_rate (48, -120, 80) (of_int 2) = 960
   \<and> \<not> \<bar>100 - 0\<bar> < (100 :: real)
   \<and> \<not> \<bar>960 - 100\<bar> < (100 :: real)
   \<and> \<not> \<bar>0 - 960\<bar> < (100 :: real)"
  by (simp add: calc_build_time_def calc_build_time_loop.simps exceeds_def
        calc_midpoint_gradient_zero calc_midpoint_gradient_1_8
        calc_displacement_scale_def quintic_rate_def Let_def)

text \<open>
  Claim C7, amended. Let \<open>(build_time, coefficients)\<close> be returned by \<open>calc_build_time\<close>
  for a build displacement \<open>D > 0\<close> and a maximum rate \<open>Rmax\<close>, and let
  \<open>T = build_time - 1\<close>; then \<open>build_time \<ge> 2\<close>. The rate that
  \<open>calc_displacement_scale\<close> returns for this pair is continuous at the phase boundaries
  up to a tolerance of the order \<open>Rmax / T\<close>, for every ease-off argument
  \<open>t = step - ease_off + build_time / 2\<close> outside \<open>(build_time - 1, build_time]\<close>:
  \<^item> in the acceleration phase (\<open>0 \<le> step < build_time / 2\<close>) the rate is in \<open>[0, Rmax]\<close>,
    and at its last step it is at least \<open>Rmax - Rmax / T - 2 Rmax / T^2\<close>;
  \<^item> in the constant phase the rate is \<open>Rmax\<close>;
  \<^item> in the ease-off phase the rate is in \<open>[0, Rmax]\<close> for \<open>0 \<le> t \<le> build_time - 1\<close>; on
    the first step after \<open>ease_off\<close> was recorded it is at least
    \<open>Rmax - Rmax / T - 18 Rmax / T^2\<close> (for \<open>build_time \<ge> 4\<close>);
  \<^item> for \<open>build_time - 2 \<le> t \<le> build_time - 1\<close> the rate is at most \<open>16 Rmax / T^2\<close>, and
    for \<open>t > build_time\<close> it is 0.
  Nothing is stated for \<open>build_time - 1 < t \<le> build_time\<close>.
\<close>

theorem ramp_continuity_up_to_granularity:
  assumes D: "0 < D" and ret: "calc_build_time D Rmax S = Inr (bt, cs)"
  shows "2 \<le> bt
    \<and> (\<forall>step e md. 0 \<le> step \<and> of_int step < (of_int bt :: real) / 2 \<longrightarrow>
          0 \<le> fst (calc_displacement_scale cs md bt Rmax step D e)
          \<and> fst (calc_displacement_scale cs md bt Rmax step D e) \<le> Rmax)
    \<and> (\<forall>step e md. 2 * step < bt \<and> bt \<le> 2 * step + 2 \<longrightarrow>
          Rmax - Rmax / of_int (bt - 1) - 2 * Rmax / of_int (bt - 1) ^ 2
            \<le> fst (calc_displacement_scale cs md bt Rmax step D e))
    \<and> (\<forall>step md. (of_int bt :: real) / 2 \<le> of_int step \<longrightarrow>
          fst (calc_displacement_scale cs md bt Rmax step D 0) = Rmax)
    \<and> (\<forall>step e md. e \<noteq> 0 \<and> (of_int bt :: real) / 2 \<le> of_int step
            \<and> 0 \<le> of_int step - of_int e + (of_int bt :: real) / 2
            \<and> of_int step - of_int e + (of_int bt :: real) / 2 \<le> of_int bt - 1 \<longrightarrow>
          0 \<le> fst (calc_displacement_scale cs md bt Rmax step D e)
          \<and> fst (calc_displacement_scale cs md bt Rmax step D e) \<le> Rmax)
    \<and> (\<forall>e md. (of_int bt :: real) / 2 \<le> of_int e \<and> 4 \<le> bt \<longrightarrow>
          Rmax - Rmax / of_int (bt - 1) - 18 * Rmax / of_int (bt - 1) ^ 2
            \<le> fst (calc_displacement_scale cs md bt Rmax (e + 1) D e))
    \<and> (\<forall>step e md. e \<noteq> 0 \<and> (of_int bt :: real) / 2 \<le> of_int step
            \<and> of_int bt - 2 \<le> of_int step - of_int e + (of_int bt :: real) / 2
            \<and> of_int step - of_int e + (of_int bt :: real) / 2 \<le> of_int bt - 1 \<longrightarrow>
          fst (calc_displacement_scale cs md bt Rmax step D e)
            \<le> 16 * Rmax / of_int (bt - 1) ^ 2)
    \<and> (\<forall>step e md. e \<noteq> 0 \<and> (of_int bt :: real) / 2 \<le> of_int step
            \<and> of_int bt < of_int step - of_int e + (of_int bt :: real) / 2 \<longrightarrow>
          fst (calc_displacement_scale cs md bt Rmax step D e) = 0)"
proof -
  define t :: real where "t = of_int (bt - 1)"
  note solved = calc_build_time_solved[OF D ret, folded t_def]
  have bt: "(of_int bt :: real) = t + 1" by (simp add: t_def)
  have t: "0 < t" "1 \<le> t" using solved(1) by (simp_all add: t_def)
  let ?cs = "(6 * D / t ^ 5, - 15 * D / t ^ 4, 10 * D / t ^ 3)"
  have cs: "cs = ?cs" by (rule solved(2))
  have upper: "15 * D / (8 * t) \<le> Rmax" by (rule solved(4))
  have lower: "Rmax - Rmax / t \<le> 15 * D / (8 * t)" by (rule solved(3))
  have range: "0 \<le> quintic_rate cs u \<and> quintic_rate cs u \<le> Rmax"
    if "0 \<le> u" "u \<le> t" for u
    using quintic_bounds[OF D t(1) that] upper unfolding cs by linarith
  have accel: "0 \<le> fst (calc_displacement_scale cs md bt Rmax step D e)
          \<and> fst (calc_displacement_scale cs md bt Rmax step D e) \<le> Rmax"
    if "0 \<le> step \<and> of_int step < (of_int bt :: real) / 2" for step e md
  proof -
    from that have "2 * step < bt" by linarith
    then have "2 * step \<le> bt - 1" by simp
    then have "2 * (of_int step :: real) \<le> t" unfolding t_def by linarith
    then have s: "0 \<le> (of_int step :: real)" "(of_int step :: real) \<le> t"
      using that t by simp_all
    have "fst (calc_displacement_scale cs md bt Rmax step D e) = quintic_rate cs (of_int step)"
      using that by (simp add: calc_displacement_scale_def)
    then show ?thesis using range[OF s] by simp
  qed
  have last: "Rmax - Rmax / t - 2 * Rmax / t ^ 2
            \<le> fst (calc_displacement_scale cs md bt Rmax step D e)"
    if "2 * step < bt \<and> bt \<le> 2 * step + 2" for step e md
  proof -
    from that have "2 * step \<le> bt - 1" "bt - 1 \<le> 2 * step + 1" by simp_all
    then have d: "2 * (of_int step :: real) \<le> t" "t \<le> 2 * of_int step + 1"
      unfolding t_def by linarith+
    have "0 \<le> step" using that solved(1) by linarith
    then have s: "0 \<le> (of_int step :: real)" "(of_int step :: real) \<le> t"
      using d t by simp_all
    have "0 \<le> t - 2 * of_int step" "t - 2 * of_int step \<le> 1" using d by simp_all
    then have "(t - 2 * of_int step) ^ 2 \<le> 1 ^ 2" by (intro power_mono) simp_all
    then have c: "(t - 2 * of_int step) ^ 2 \<le> 1" by simp
    have "of_int step < (of_int bt :: real) / 2" using d bt by simp
    then have "fst (calc_displacement_scale cs md bt Rmax step D e)
                 = quintic_rate cs (of_int step)"
      by (simp add: calc_displacement_scale_def)
    then show ?thesis
      using quintic_near_midpoint[OF D t(1) s c lower upper] unfolding cs by simp
  qed
  have const: "fst (calc_displacement_scale cs md bt Rmax step D 0) = Rmax"
    if "(of_int bt :: real) / 2 \<le> of_int step" for step md
    using that by (simp add: calc_displacement_scale_def Let_def not_less)
  have ease: "fst (calc_displacement_scale cs md bt Rmax step D e)
                = quintic_rate cs (of_int step - of_int e + of_int bt / 2)"
    if "e \<noteq> 0" "(of_int bt :: real) / 2 \<le> of_int step"
      "of_int step - of_int e + (of_int bt :: real) / 2 \<le> of_int bt" for step e md
    using that by (simp add: calc_displacement_scale_def Let_def not_less)
  have ease_range: "0 \<le> fst (calc_displacement_scale cs md bt Rmax step D e)
          \<and> fst (calc_displacement_scale cs md bt Rmax step D e) \<le> Rmax"
    if "e \<noteq> 0 \<and> (of_int bt :: real) / 2 \<le> of_int step
            \<and> 0 \<le> of_int step - of_int e + (of_int bt :: real) / 2
            \<and> of_int step - of_int e + (of_int bt :: real) / 2 \<le> of_int bt - 1"
    for step e md
  proof -
    have "of_int step - of_int e + (of_int bt :: real) / 2 \<le> of_int bt" using that by linarith
    from ease[OF _ _ this, of md] that
    have "fst (calc_displacement_scale cs md bt Rmax step D e)
                = quintic_rate cs (of_int step - of_int e + of_int bt / 2)" by simp
    moreover have "of_int step - of_int e + (of_int bt :: real) / 2 \<le> t"
      using that bt by linarith
    ultimately show ?thesis using range[of "of_int step - of_int e + of_int bt / 2"] that
      by simp
  qed
  have first: "Rmax - Rmax / t - 18 * Rmax / t ^ 2
            \<le> fst (calc_displacement_scale cs md bt Rmax (e + 1) D e)"
    if "(of_int bt :: real) / 2 \<le> of_int e \<and> 4 \<le> bt" for e md
  proof -
    have t3: "3 \<le> t" using that by (simp add: t_def)
    have "0 < (of_int e :: real)" using that bt t by linarith
    then have e0: "e \<noteq> 0" by auto
    define u :: real where "u = (t + 3) / 2"
    have arg: "of_int (e + 1) - of_int e + (of_int bt :: real) / 2 = u"
      by (simp add: u_def bt field_simps)
    have u: "0 \<le> u" "u \<le> t" using t3 by (simp_all add: u_def)
    have "u \<le> of_int bt" using u bt by linarith
    then have "fst (calc_displacement_scale cs md bt Rmax (e + 1) D e) = quintic_rate cs u"
      using ease[of e "e + 1" md] e0 that unfolding arg by simp
    moreover have "t - 2 * u = - 3" by (simp add: u_def field_simps)
    then have "(t - 2 * u) ^ 2 \<le> 9" by simp
    ultimately show ?thesis
      using quintic_near_midpoint[OF D t(1) u _ lower upper, of 9] unfolding cs by simp
  qed
  have near_end: "fst (calc_displacement_scale cs md bt Rmax step D e) \<le> 16 * Rmax / t ^ 2"
    if "e \<noteq> 0 \<and> (of_int bt :: real) / 2 \<le> of_int step
            \<and> of_int bt - 2 \<le> of_int step - of_int e + (of_int bt :: real) / 2
            \<and> of_int step - of_int e + (of_int bt :: real) / 2 \<le> of_int bt - 1"
    for step e md
  proof -
    have "of_int step - of_int e + (of_int bt :: real) / 2 \<le> of_int bt" using that by linarith
    from ease[OF _ _ this, of md] that
    have "fst (calc_displacement_scale cs md bt Rmax step D e)
                = quintic_rate cs (of_int step - of_int e + of_int bt / 2)" by simp
    moreover have "t - 1 \<le> of_int step - of_int e + (of_int bt :: real) / 2"
      "of_int step - of_int e + (of_int bt :: real) / 2 \<le> t"
      using that bt by linarith+
    ultimately show ?thesis
      using quintic_near_end[OF D t(2) _ _ upper, of "of_int step - of_int e + of_int bt / 2"]
      unfolding cs by simp
  qed
  have clamp: "fst (calc_displacement_scale cs md bt Rmax step D e) = 0"
    if "e \<noteq> 0 \<and> (of_int bt :: real) / 2 \<le> of_int step
            \<and> of_int bt < of_int step - of_int e + (of_int bt :: real) / 2" for step e md
    using that by (simp add: calc_displacement_scale_def Let_def not_less)
  show ?thesis
    unfolding t_def[symmetric]
    using solved(1) accel last const ease_range first near_end clamp by blast
qed

theorem ramp_continuity_up_to_granularity_witness:
  "0 < (8 :: real)
   \<and> calc_build_time 8 (51 / 100) 40 = Inr (31, (1 / 506250, - (1 / 6750), 2 / 675))
   \<and> (2 :: int) * 15 < 31 \<and> (31 :: int) \<le> 2 * 15 + 2
   \<and> fst (calc_displacement_scale (1 / 506250, - (1 / 6750), 2 / 675) 100 31 (51 / 100) 15 8 0)
        = 1 / 2
   \<and> 51 / 100 - (51 / 100) / of_int (31 - 1) - 2 * (51 / 100) / of_int (31 - 1) ^ 2
        \<le> fst (calc_displacement_scale (1 / 506250, - (1 / 6750), 2 / 675) 100 31 (51 / 100) 15 8 0)
   \<and> fst (calc_displacement_scale (1 / 506250, - (1 / 6750), 2 / 675) 100 31 (51 / 100) 16 8 0)
        = 51 / 100
   \<and> (of_int 31 :: real) / 2 \<le> of_int 20 \<and> (4 :: int) \<le> 31
   \<and> fst (calc_displacement_scale (1 / 506250, - (1 / 6750), 2 / 675) 100 31 (51 / 100) (20 + 1) 8 20)
        = 9801 / 20000
   \<and> 51 / 100 - (51 / 100) / of_int (31 - 1) - 18 * (51 / 100) / of_int (31 - 1) ^ 2
        \<le> fst (calc_displacement_scale (1 / 506250, - (1 / 6750), 2 / 675) 100 31 (51 / 100) (20 + 1) 8 20)
   \<and> (of_int 31 :: real) - 2 \<le> of_int 34 - of_int 20 + of_int 31 / 2
   \<and> of_int 34 - of_int 20 + (of_int 31 :: real) / 2 \<le> of_int 31 - 1
   \<and> fst (calc_displacement_scale (1 / 506250, - (1 / 6750), 2 / 675) 100 31 (51 / 100) 34 8 20)
        \<le> 16 * (51 / 100) / of_int (31 - 1) ^ 2
   \<and> (of_int 31 :: real) < of_int 36 - of_int 20 + of_int 31 / 2
   \<and> fst (calc_displacement_scale (1 / 506250, - (1 / 6750), 2 / 675) 100 31 (51 / 100) 36 8 20)
        = 0"
proof -
  have h1: "0 < (8 :: real)" by simp
  have h2: "calc_build_time 8 (51 / 100) 40 = Inr (31, (1 / 506250, - (1 / 6750), 2 / 675))"
    by code_simp
  note th = ramp_continuity_up_to_granularity[OF h1 h2]
  have last: "51 / 100 - (51 / 100) / of_int (31 - 1) - 2 * (51 / 100) / of_int (31 - 1) ^ 2
        \<le> fst (calc_displacement_scale (1 / 506250, - (1 / 6750), 2 / 675) 100 31 (51 / 100) 15 8 0)"
    using th[THEN conjunct2, THEN conjunct2, THEN conjunct1, rule_format, of 15 100 0] by simp
  have first: "51 / 100 - (51 / 100) / of_int (31 - 1) - 18 * (51 / 100) / of_int (31 - 1) ^ 2
        \<le> fst (calc_displacement_scale (1 / 506250, - (1 / 6750), 2 / 675) 100 31 (51 / 100) (20 + 1) 8 20)"
    using th[THEN conjunct2, THEN conjunct2, THEN conjunct2, THEN conjunct2, THEN conjunct2,
        THEN conjunct1, rule_format, of 20 100] by simp
  have near_end: "fst (calc_displacement_scale (1 / 506250, - (1 / 6750), 2 / 675) 100 31 (51 / 100) 34 8 20)
        \<le> 16 * (51 / 100) / of_int (31 - 1) ^ 2"
    using th[THEN conjunct2, THEN conjunct2, THEN conjunct2, THEN conjunct2, THEN conjunct2,
        THEN conjunct2, THEN conjunct1, rule_format, of 20 34 100] by simp
  have vals: "fst (calc_displacement_scale (1 / 506250, - (1 / 6750), 2 / 675) 100 31 (51 / 100) 15 8 0)
                = 1 / 2"
    "fst (calc_displacement_scale (1 / 506250, - (1 / 6750), 2 / 675) 100 31 (51 / 100) 16 8 0)
                = 51 / 100"
    "fst (calc_displacement_scale (1 / 506250, - (1 / 6750), 2 / 675) 100 31 (51 / 100) (20 + 1) 8 20)
                = 9801 / 20000"
    "fst (calc_displacement_scale (1 / 506250, - (1 / 6750), 2 / 675) 100 31 (51 / 100) 36 8 20)
                = 0"
    by (simp_all add: calc_displacement_scale_def quintic_rate_def Let_def power_divide)
  have prem: "(2 :: int) * 15 < 31" "(31 :: int) \<le> 2 * 15 + 2"
    "(of_int 31 :: real) / 2 \<le> of_int 20" "(4 :: int) \<le> 31"
    "(of_int 31 :: real) - 2 \<le> of_int 34 - of_int 20 + of_int 31 / 2"
    "of_int 34 - of_int 20 + (of_int 31 :: real) / 2 \<le> of_int 31 - 1"
    "(of_int 31 :: real) < of_int 36 - of_int 20 + of_int 31 / 2"
    by simp_all
  show ?thesis
    by (intro conjI h1 h2 last first near_end vals prem)
qed

section \<open>Absent files and datasets in \<open>read_array\<close>\<close>

lemma read_array_missing_file:
  "fs read_path = None \<Longrightarrow> read_array missing fs read_path dataset = Inr None"
  by (simp add: read_array_def h5py_File_def str_format_def)

lemma read_array_missing_key:
  "fs read_path = Some hf \<Longrightarrow> hf dataset = None \<Longrightarrow>
   read_array missing fs read_path dataset
     = Inl (if missing = IOError then IndexError else missing)"
  by (simp add: read_array_def h5py_File_def h5py_getitem_def str_format_def)

lemma read_array_present:
  "fs read_path = Some hf \<Longrightarrow> hf dataset = Some a \<Longrightarrow>
   read_array missing fs read_path dataset = Inr (Some a)"
  by (simp add: read_array_def h5py_File_def h5py_getitem_def)

text \<open>
  Claim C8 (refuted on the code). A missing file gives \<open>None\<close> without an exception
  (\<open>read_array_missing_file\<close>). A file that exists without the dataset does not: the
  \<open>KeyError\<close> of h5py passes both handlers, and were the exception the \<open>IOError\<close> that
  the inner handler expects, the handler would raise \<open>IndexError\<close> while it formats its
  message. The file \<open>model.h5\<close> below holds \<open>family\<close> only.
\<close>

theorem read_array_missing_dataset_raises:
  "read_array KeyError [''model.h5'' \<mapsto> [''family'' \<mapsto> [1 :: int, 2]]] ''model.h5'' ''volume''
     = Inl KeyError
   \<and> read_array IOError [''model.h5'' \<mapsto> [''family'' \<mapsto> [1 :: int, 2]]] ''model.h5'' ''volume''
     = Inl IndexError
   \<and> read_array KeyError [''model.h5'' \<mapsto> [''family'' \<mapsto> [1 :: int, 2]]] ''other.h5'' ''volume''
     = Inr None"
  by (simp add: read_array_def h5py_File_def h5py_getitem_def str_format_def Let_def)

section \<open>The initial crack of the example\<close>

lemma is_crack_swap: "is_crack x y = is_crack y x"
proof (cases "x = [] \<or> y = []")
  case True
  then show ?thesis by (auto simp: is_crack_def bind_result_def getitem_def Let_def)
next
  case False
  then have lx: "0 < length x" and ly: "0 < length y" by auto
  consider "x ! 0 < y ! 0" | "x ! 0 = y ! 0" | "y ! 0 < x ! 0" by linarith
  then show ?thesis
  proof cases
    case 1
    then show ?thesis using lx ly
      by (simp add: is_crack_def bind_result_def getitem_def Let_def)
  next
    case 2
    then show ?thesis using lx ly
      by (auto simp: is_crack_def bind_result_def getitem_def Let_def)
  next
    case 3
    then show ?thesis using lx ly
      by (simp add: is_crack_def bind_result_def getitem_def Let_def)
  qed
qed

lemma is_crack_no_zero_division: "is_crack x y \<noteq> Inl ZeroDivisionError"
  by (auto simp: is_crack_def bind_result_def getitem_def divide_float_def Let_def
      split: if_splits)

lemma is_crack_total:
  "2 \<le> length x \<Longrightarrow> 2 \<le> length y \<Longrightarrow> is_crack x y = Inr 0 \<or> is_crack x y = Inr 1"
  by (auto simp: is_crack_def bind_result_def getitem_def divide_float_def Let_def
      split: if_splits)

text \<open>
  Claim C9. \<open>is_crack\<close> gives the same result for \<open>(x, y)\<close> and \<open>(y, x)\<close>, for all
  coordinates (an \<open>IndexError\<close> on a coordinate that is too short included); the slope
  never divides by zero, since the division is reached only with the first components
  strictly on opposite sides of \<open>0.5 + 1e-6\<close>; on coordinates with two components or
  more the result is 0 or 1.
\<close>

theorem is_crack_symmetric:
  "is_crack x y = is_crack y x
   \<and> is_crack x y \<noteq> Inl ZeroDivisionError
   \<and> (2 \<le> length x \<and> 2 \<le> length y \<longrightarrow> is_crack x y = Inr 0 \<or> is_crack x y = Inr 1)"
  using is_crack_swap is_crack_no_zero_division is_crack_total by blast

theorem is_crack_symmetric_witness:
  "2 \<le> length [0.4, 0.5, 0 :: real] \<and> 2 \<le> length [0.6, 0.5, 0 :: real]
   \<and> is_crack [0.4, 0.5, 0] [0.6, 0.5, 0] = Inr 1
   \<and> is_crack [0.6, 0.5, 0] [0.4, 0.5, 0] = Inr 1"
  using is_crack_symmetric[of "[0.4, 0.5, 0]" "[0.6, 0.5, 0]"]
  by (simp add: is_crack_def bind_result_def getitem_def divide_float_def Let_def)

section \<open>The boundary function of the example\<close>

lemma assign_rows_ok:
  assumes "\<forall>i \<in> set idx. i < length u"
  shows "assign_rows idx f u
           = Inr (map (\<lambda>i. if i \<in> set idx then f (u ! i) else u ! i) [0..<length u])"
  using assms by (simp add: assign_rows_def list_all_iff)

lemma boundary_function_rows:
  assumes l: "\<forall>i \<in> set (lhs m). i < length u" and r: "\<forall>i \<in> set (rhs m). i < length u"
  shows "boundary_function m u step =
     Inr (map (\<lambda>i. if i \<in> set (rhs m) then (0.5 * of_int step * 0.000005, 0, 0)
                    else if i \<in> set (lhs m) then (- (0.5 * of_int step * 0.000005), 0, 0)
                    else u ! i) [0..<length u])"
proof -
  let ?z = "\<lambda>(u0 :: real, u1 :: real, u2 :: real). (u0, 0 :: real, 0 :: real)"
  define u1 where "u1 = map (\<lambda>i. if i \<in> set (lhs m) then ?z (u ! i) else u ! i) [0..<length u]"
  define u2 where "u2 = map (\<lambda>i. if i \<in> set (rhs m) then ?z (u1 ! i) else u1 ! i) [0..<length u1]"
  define e :: real where "e = 0.5 * of_int step * 0.000005"
  let ?l = "\<lambda>(u0 :: real, u1 :: real, u2 :: real). (- e, u1, u2)"
  let ?r = "\<lambda>(u0 :: real, u1 :: real, u2 :: real). (e, u1, u2)"
  define u3 where "u3 = map (\<lambda>i. if i \<in> set (lhs m) then ?l (u2 ! i) else u2 ! i) [0..<length u2]"
  define u4 where "u4 = map (\<lambda>i. if i \<in> set (rhs m) then ?r (u3 ! i) else u3 ! i) [0..<length u3]"
  have len: "length u1 = length u" "length u2 = length u" "length u3 = length u"
    "length u4 = length u"
    by (simp_all add: u1_def u2_def u3_def u4_def)
  have s1: "assign_rows (lhs m) ?z u = Inr u1"
    unfolding u1_def by (rule assign_rows_ok[OF l])
  have s2: "assign_rows (rhs m) ?z u1 = Inr u2"
    unfolding u2_def by (rule assign_rows_ok) (use r len in simp)
  have s3: "assign_rows (lhs m) ?l u2 = Inr u3"
    unfolding u3_def by (rule assign_rows_ok) (use l len in simp)
  have s4: "assign_rows (rhs m) ?r u3 = Inr u4"
    unfolding u4_def by (rule assign_rows_ok) (use r len in simp)
  have bf: "boundary_function m u step = Inr u4"
    unfolding boundary_function_def Let_def e_def[symmetric] bind_result_def s1 s2 s3 s4 sum.case
    by (rule refl)
  have "u4 = map (\<lambda>i. if i \<in> set (rhs m) then (e, 0, 0)
                    else if i \<in> set (lhs m) then (- e, 0, 0)
                    else u ! i) [0..<length u]"
  proof (rule nth_equalityI)
    show "length u4 = length (map (\<lambda>i. if i \<in> set (rhs m) then (e, 0, 0)
                    else if i \<in> set (lhs m) then (- e, 0, 0)
                    else u ! i) [0..<length u])"
      by (simp add: len)
  next
    fix i assume "i < length u4"
    then have i: "i < length u" by (simp add: len)
    have a1: "u1 ! i = (if i \<in> set (lhs m) then ?z (u ! i) else u ! i)"
      using i by (simp add: u1_def)
    have a2: "u2 ! i = (if i \<in> set (rhs m) then ?z (u1 ! i) else u1 ! i)"
      using i by (simp add: u2_def len)
    have a3: "u3 ! i = (if i \<in> set (lhs m) then ?l (u2 ! i) else u2 ! i)"
      using i by (simp add: u3_def len)
    have a4: "u4 ! i = (if i \<in> set (rhs m) then ?r (u3 ! i) else u3 ! i)"
      using i by (simp add: u4_def len)
    show "u4 ! i = map (\<lambda>i. if i \<in> set (rhs m) then (e, 0, 0)
                    else if i \<in> set (lhs m) then (- e, 0, 0)
                    else u ! i) [0..<length u] ! i"
      using i by (cases "u ! i") (simp add: a1 a2 a3 a4)
  qed
  then show ?thesis using bf by (simp add: e_def)
qed

text \<open>
  The index arrays of \<open>main\<close> are in range and disjoint: no first coordinate is below
  0.15 and above 0.85.
\<close>

lemma set_nonzero: "set (nonzero flags) = {i. i < length flags \<and> flags ! i}"
  by (auto simp: nonzero_def)

lemma main_model_index_arrays:
  "\<forall>i \<in> set (lhs (main_model coords)) \<union> set (rhs (main_model coords)). i < length coords"
  "set (lhs (main_model coords)) \<inter> set (rhs (main_model coords)) = {}"
  by (auto simp: main_model_def set_nonzero)

text \<open>
  Claim C10. For index arrays that are in range and disjoint, as those of \<open>main\<close> are,
  \<open>boundary_function\<close> returns an array of the same length in which every row indexed
  by neither \<open>model.lhs\<close> nor \<open>model.rhs\<close> is unchanged, every row of \<open>model.lhs\<close> is
  \<open>(-0.5 * step * load_rate, 0, 0)\<close> and every row of \<open>model.rhs\<close> is
  \<open>(+0.5 * step * load_rate, 0, 0)\<close>, with \<open>load_rate = 0.000005\<close>: equal magnitude,
  opposite sign.
\<close>

theorem boundary_function_frame:
  assumes "\<forall>i \<in> set (lhs m) \<union> set (rhs m). i < length u"
    and "set (lhs m) \<inter> set (rhs m) = {}"
  shows "\<exists>u'. boundary_function m u step = Inr u' \<and> length u' = length u
     \<and> (\<forall>i < length u. i \<notin> set (lhs m) \<union> set (rhs m) \<longrightarrow> u' ! i = u ! i)
     \<and> (\<forall>i \<in> set (lhs m). u' ! i = (- (0.5 * of_int step * 0.000005), 0, 0))
     \<and> (\<forall>i \<in> set (rhs m). u' ! i = (0.5 * of_int step * 0.000005, 0, 0))"
proof -
  have l: "\<forall>i \<in> set (lhs m). i < length u" and r: "\<forall>i \<in> set (rhs m). i < length u"
    using assms(1) by auto
  have "\<forall>i \<in> set (lhs m). i \<notin> set (rhs m)" using assms(2) by auto
  with boundary_function_rows[OF l r, of step] l r show ?thesis by simp
qed

theorem boundary_function_frame_witness:
  "main_model [(0.1, 0.5, 0), (0.5, 0.5, 0), (0.9, 0.5, 0)] = \<lparr>lhs = [0], rhs = [2]\<rparr>
   \<and> (2 :: nat) < length [(1, 2, 3), (4, 5, 6), (7, 8, 9 :: real)]
   \<and> set [0 :: nat] \<inter> set [2] = {}
   \<and> boundary_function (main_model [(0.1, 0.5, 0), (0.5, 0.5, 0), (0.9, 0.5, 0)])
         [(1, 2, 3), (4, 5, 6), (7, 8, 9)] 2
       = Inr [(- (1 / 200000), 0, 0), (4, 5, 6), (1 / 200000, 0, 0)]"
proof -
  let ?coords = "[(0.1, 0.5, 0), (0.5, 0.5, 0), (0.9, 0.5, 0 :: real)]"
  let ?u = "[(1, 2, 3), (4, 5, 6), (7, 8, 9 :: real)]"
  have m: "main_model ?coords = \<lparr>lhs = [0], rhs = [2]\<rparr>"
    by (simp add: main_model_def nonzero_def upt_conv_Cons)
  have h1: "\<forall>i \<in> set (lhs (main_model ?coords)) \<union> set (rhs (main_model ?coords)). i < length ?u"
    using main_model_index_arrays(1)[of ?coords] by simp
  have h2: "set (lhs (main_model ?coords)) \<inter> set (rhs (main_model ?coords)) = {}"
    by (rule main_model_index_arrays(2))
  from boundary_function_frame[OF h1 h2, of 2]
  obtain u' where b: "boundary_function (main_model ?coords) ?u 2 = Inr u'"
    and len: "length u' = 3"
    and rest: "\<forall>i < 3. i \<notin> {0, 2} \<longrightarrow> u' ! i = ?u ! i"
    and left: "u' ! 0 = (- (0.5 * of_int 2 * 0.000005), 0, 0)"
    and right: "u' ! 2 = (0.5 * of_int 2 * 0.000005, 0, 0)"
    unfolding m by auto
  have "u' = [(- (1 / 200000), 0, 0), (4, 5, 6), (1 / 200000, 0, 0)]"
  proof (rule nth_equalityI)
    show "length u' = length [(- (1 / 200000), 0, 0), (4, 5, 6), (1 / 200000, 0, 0 :: real)]"
      using len by simp
  next
    fix i assume "i < length u'"
    then have "i = 0 \<or> i = 1 \<or> i = 2" using len by auto
    then show "u' ! i = [(- (1 / 200000), 0, 0), (4, 5, 6), (1 / 200000, 0, 0)] ! i"
      using rest left right by auto
  qed
  with b m show ?thesis by simp
qed

end
